theory Spec2Isabelle
  imports Complex_Main
begin

section \<open>ParamDict: a dictionary of tensors with arithmetic\<close>

text \<open>
  The class \<^verbatim>\<open>ParamDict\<close> of \<^verbatim>\<open>disc/utils/tools.py\<close> is an \<^verbatim>\<open>OrderedDict\<close> from
  parameter names to tensors. Every operation of the class works value by value, so a
  tensor is represented by one of its elements, taken in exact arithmetic, and by the
  device that holds it. Python exceptions are values of the type \<open>py_error\<close>.
\<close>

subsection \<open>Tensors\<close>

datatype device = CPU | CUDA nat

record tensor =
  data :: real
  device :: device

text \<open>\<^verbatim>\<open>t.cpu()\<close>: the same values, held in host memory.\<close>

definition cpu :: "tensor \<Rightarrow> tensor" where
  "cpu t = t\<lparr>device := CPU\<rparr>"

text \<open>\<^verbatim>\<open>-t\<close>: a tensor on the device of \<open>t\<close>.\<close>

definition tensor_neg :: "tensor \<Rightarrow> tensor" where
  "tensor_neg t = \<lparr>data = - data t, device = device t\<rparr>"

datatype py_error =
  NotImplementedError | KeyError string | AttributeError | TypeError | ValueError
  | RuntimeError

text \<open>The three functions of the module \<^verbatim>\<open>operator\<close> that the class passes around.\<close>

datatype binop = Add | Mul | TrueDiv

fun operator :: "binop \<Rightarrow> real \<Rightarrow> real \<Rightarrow> real" where
  "operator Add x y = x + y"
| "operator Mul x y = x * y"
| "operator TrueDiv x y = x / y"

text \<open>\<^verbatim>\<open>op(t, n)\<close> for a tensor and a Python number: the result stays on the device of \<open>t\<close>.\<close>

definition tensor_number :: "binop \<Rightarrow> tensor \<Rightarrow> real \<Rightarrow> tensor" where
  "tensor_number op t n = \<lparr>data = operator op (data t) n, device = device t\<rparr>"

text \<open>\<^verbatim>\<open>op(a, b)\<close> for two tensors: the framework refuses operands on different devices.\<close>

definition tensor_tensor :: "binop \<Rightarrow> tensor \<Rightarrow> tensor \<Rightarrow> py_error + tensor" where
  "tensor_tensor op a b =
     (if device a = device b
      then Inr \<lparr>data = operator op (data a) (data b), device = device a\<rparr>
      else Inl RuntimeError)"

subsection \<open>Ordered dictionaries\<close>

text \<open>
  An ordered dictionary is the list of its items in insertion order; a dictionary that
  Python can build has no key twice (\<open>distinct (map fst d)\<close>).
\<close>

type_synonym odict = "(string \<times> tensor) list"

text \<open>\<^verbatim>\<open>d[k]\<close>\<close>

fun getitem :: "odict \<Rightarrow> string \<Rightarrow> py_error + tensor" where
  "getitem [] k = Inl (KeyError k)"
| "getitem ((k', v) # d) k = (if k' = k then Inr v else getitem d k)"

text \<open>\<^verbatim>\<open>d[k] = v\<close>: a known key keeps its place, a new key goes to the end.\<close>

fun setitem :: "odict \<Rightarrow> string \<Rightarrow> tensor \<Rightarrow> odict" where
  "setitem [] k v = [(k, v)]"
| "setitem ((k', v') # d) k v = (if k' = k then (k', v) # d else (k', v') # setitem d k v)"

text \<open>
  A dictionary comprehension \<^verbatim>\<open>{key(x): value(x) for x in xs}\<close>: the items are computed
  and stored one after the other, and the first exception ends the comprehension.
\<close>

fun dict_comp :: "('x \<Rightarrow> py_error + string \<times> tensor) \<Rightarrow> 'x list \<Rightarrow> odict \<Rightarrow> py_error + odict" where
  "dict_comp f [] acc = Inr acc"
| "dict_comp f (x # xs) acc =
     (case f x of Inl e \<Rightarrow> Inl e | Inr (k, v) \<Rightarrow> dict_comp f xs (setitem acc k v))"

subsection \<open>The constructor\<close>

text \<open>
  What a caller can pass to the constructor in one positional place: a mapping, an
  iterable of pairs, or a string. A string is what \<^verbatim>\<open>*kwargs\<close> puts there, since
  unpacking a dictionary with one star yields its keys.
\<close>

datatype ctor_arg = MappingArg odict | PairsArg "(string \<times> tensor) list" | StrArg string

fun update_pairs :: "odict \<Rightarrow> (string \<times> tensor) list \<Rightarrow> odict" where
  "update_pairs d [] = d"
| "update_pairs d ((k, v) # ps) = update_pairs (setitem d k v) ps"

text \<open>
  \<^verbatim>\<open>OrderedDict.__init__(self, *args)\<close> on a new, empty dictionary and without keyword
  arguments: more than one positional argument is a \<^verbatim>\<open>TypeError\<close>; a mapping or an
  iterable of pairs is stored item by item; a string is read as an iterable of pairs, and
  its first character, a string of length one, does not unpack into a pair
  (\<^verbatim>\<open>ValueError\<close>); the empty string has no element and stores nothing.
\<close>

fun OrderedDict_init :: "ctor_arg list \<Rightarrow> py_error + odict" where
  "OrderedDict_init [] = Inr []"
| "OrderedDict_init [MappingArg m] = Inr (update_pairs [] m)"
| "OrderedDict_init [PairsArg ps] = Inr (update_pairs [] ps)"
| "OrderedDict_init [StrArg s] = (if s = [] then Inr [] else Inl ValueError)"
| "OrderedDict_init (a # b # args) = Inl TypeError"

text \<open>
  \<^verbatim>\<open>def __init__(self, *args, **kwargs): super().__init__(*args, *kwargs)\<close>: the keys of
  the keyword arguments follow the positional arguments, as positional arguments.
\<close>

definition ParamDict_init :: "ctor_arg list \<Rightarrow> (string \<times> tensor) list \<Rightarrow> py_error + odict" where
  "ParamDict_init args kwargs = OrderedDict_init (args @ map (\<lambda>(k, v). StrArg k) kwargs)"

text \<open>\<^verbatim>\<open>ParamDict(d)\<close> for a dictionary \<open>d\<close>, as every operation of the class ends.\<close>

definition ParamDict :: "odict \<Rightarrow> py_error + odict" where
  "ParamDict d = ParamDict_init [MappingArg d] []"

subsection \<open>Arithmetic\<close>

text \<open>
  The right operand of an operation: a Python number, a \<^verbatim>\<open>ParamDict\<close>, a dictionary of
  another class, a tensor, or \<^verbatim>\<open>None\<close> (which stands for the objects that are none of
  these and that have no \<^verbatim>\<open>__neg__\<close>).
\<close>

datatype operand = Number real | ParamDictV odict | DictV odict | TensorV tensor | NoneV

text \<open>
  The two comprehensions of \<^verbatim>\<open>_prototype\<close>. For a number \<open>n\<close> the item of \<open>(k, v)\<close> is
  \<^verbatim>\<open>k: op(v, other).cpu()\<close>; for a dictionary \<open>d\<close> the item of the key \<open>k\<close> is
  \<^verbatim>\<open>k: op(self[k].cpu(), other[k].cpu())\<close>, where \<^verbatim>\<open>self[k]\<close> is read before
  \<^verbatim>\<open>other[k]\<close>.
\<close>

definition number_item :: "binop \<Rightarrow> real \<Rightarrow> string \<times> tensor \<Rightarrow> py_error + string \<times> tensor" where
  "number_item op n = (\<lambda>(k, v). Inr (k, cpu (tensor_number op v n)))"

definition dict_item :: "odict \<Rightarrow> odict \<Rightarrow> binop \<Rightarrow> string \<Rightarrow> py_error + string \<times> tensor" where
  "dict_item self d op k =
     (case getitem self k of Inl e \<Rightarrow> Inl e | Inr a \<Rightarrow>
        (case getitem d k of Inl e \<Rightarrow> Inl e | Inr b \<Rightarrow>
           (case tensor_tensor op (cpu a) (cpu b) of Inl e \<Rightarrow> Inl e | Inr c \<Rightarrow> Inr (k, c))))"

text \<open>
  \<^verbatim>\<open>_prototype(self, other, op)\<close>: a number (\<^verbatim>\<open>isinstance(other, Number)\<close>) is combined
  with every value of \<^verbatim>\<open>self.items()\<close>; a dictionary (\<^verbatim>\<open>isinstance(other, dict)\<close>, which
  a \<^verbatim>\<open>ParamDict\<close> is too) is read at every key of \<open>self\<close>; anything else raises
  \<^verbatim>\<open>NotImplementedError\<close>. Either comprehension goes through the constructor.
\<close>

definition prototype :: "odict \<Rightarrow> operand \<Rightarrow> binop \<Rightarrow> py_error + odict" where
  "prototype self other op =
     (case other of
        Number n \<Rightarrow>
          (case dict_comp (number_item op n) self [] of Inl e \<Rightarrow> Inl e | Inr r \<Rightarrow> ParamDict r)
      | ParamDictV d \<Rightarrow>
          (case dict_comp (dict_item self d op) (map fst self) [] of
             Inl e \<Rightarrow> Inl e | Inr r \<Rightarrow> ParamDict r)
      | DictV d \<Rightarrow>
          (case dict_comp (dict_item self d op) (map fst self) [] of
             Inl e \<Rightarrow> Inl e | Inr r \<Rightarrow> ParamDict r)
      | TensorV t \<Rightarrow> Inl NotImplementedError
      | NoneV \<Rightarrow> Inl NotImplementedError)"

text \<open>\<^verbatim>\<open>__add__\<close>, \<^verbatim>\<open>__rmul__\<close> (and \<^verbatim>\<open>__mul__ = __rmul__\<close>), \<^verbatim>\<open>__truediv__\<close>\<close>

definition ParamDict_add :: "odict \<Rightarrow> operand \<Rightarrow> py_error + odict" where
  "ParamDict_add self other = prototype self other Add"

definition ParamDict_rmul :: "odict \<Rightarrow> operand \<Rightarrow> py_error + odict" where
  "ParamDict_rmul self other = prototype self other Mul"

definition ParamDict_mul :: "odict \<Rightarrow> operand \<Rightarrow> py_error + odict" where
  "ParamDict_mul = ParamDict_rmul"

definition ParamDict_truediv :: "odict \<Rightarrow> operand \<Rightarrow> py_error + odict" where
  "ParamDict_truediv self other = prototype self other TrueDiv"

text \<open>\<^verbatim>\<open>__neg__\<close>: \<^verbatim>\<open>ParamDict({k: -v for k, v in self.items()})\<close>\<close>

definition neg_item :: "string \<times> tensor \<Rightarrow> py_error + string \<times> tensor" where
  "neg_item = (\<lambda>(k, v). Inr (k, tensor_neg v))"

definition ParamDict_neg :: "odict \<Rightarrow> py_error + odict" where
  "ParamDict_neg self =
     (case dict_comp neg_item self [] of Inl e \<Rightarrow> Inl e | Inr r \<Rightarrow> ParamDict r)"

text \<open>
  \<^verbatim>\<open>other.__neg__()\<close> as \<^verbatim>\<open>__rsub__\<close> calls it: the method of the operand's own class.
  A plain dictionary and \<^verbatim>\<open>None\<close> have none.
\<close>

fun operand_neg :: "operand \<Rightarrow> py_error + operand" where
  "operand_neg (Number n) = Inr (Number (- n))"
| "operand_neg (ParamDictV d) =
     (case ParamDict_neg d of Inl e \<Rightarrow> Inl e | Inr r \<Rightarrow> Inr (ParamDictV r))"
| "operand_neg (DictV d) = Inl AttributeError"
| "operand_neg (TensorV t) = Inr (TensorV (tensor_neg t))"
| "operand_neg NoneV = Inl AttributeError"

text \<open>\<^verbatim>\<open>__rsub__\<close>: \<^verbatim>\<open>return self.__add__(other.__neg__())\<close>, and \<^verbatim>\<open>__sub__ = __rsub__\<close>\<close>

definition ParamDict_rsub :: "odict \<Rightarrow> operand \<Rightarrow> py_error + odict" where
  "ParamDict_rsub self other =
     (case operand_neg other of Inl e \<Rightarrow> Inl e | Inr n \<Rightarrow> ParamDict_add self n)"

definition ParamDict_sub :: "odict \<Rightarrow> operand \<Rightarrow> py_error + odict" where
  "ParamDict_sub = ParamDict_rsub"

subsection \<open>Notions used in the statements\<close>

text \<open>The items of a dictionary as numbers: every key with the value of its tensor.\<close>

definition numbers :: "odict \<Rightarrow> (string \<times> real) list" where
  "numbers d = map (\<lambda>(k, v). (k, data v)) d"

text \<open>The operands that one of the two \<^verbatim>\<open>isinstance\<close> tests of \<^verbatim>\<open>_prototype\<close> accepts.\<close>

fun number_or_dict :: "operand \<Rightarrow> bool" where
  "number_or_dict (Number n) = True"
| "number_or_dict (ParamDictV d) = True"
| "number_or_dict (DictV d) = True"
| "number_or_dict (TensorV t) = False"
| "number_or_dict NoneV = False"

subsection \<open>The same operations on a store of objects\<close>

text \<open>
  Python dictionaries are objects that can be changed in place, and the operands of an
  operation are references. To say what an operation does to its operands, the
  operations are given once more over a store: a list of dictionary objects, where the
  address of an object is its index, a new object goes to the end, and
  \<^verbatim>\<open>d[k] = v\<close> overwrites the object at the address of \<open>d\<close>. Tensors stay values: the
  class applies only \<^verbatim>\<open>op(a, b)\<close>, \<^verbatim>\<open>-v\<close> and \<^verbatim>\<open>.cpu()\<close> to them, none of which
  writes to its argument.
\<close>

datatype obj = ParamDictObj odict | DictObj odict

fun contents :: "obj \<Rightarrow> odict" where
  "contents (ParamDictObj d) = d"
| "contents (DictObj d) = d"

fun set_contents :: "obj \<Rightarrow> odict \<Rightarrow> obj" where
  "set_contents (ParamDictObj _) d = ParamDictObj d"
| "set_contents (DictObj _) d = DictObj d"

type_synonym heap = "obj list"

datatype ref = NumberR real | ObjR nat | TensorR tensor | NoneR

text \<open>A reference is live when it points into the store.\<close>

fun live :: "heap \<Rightarrow> ref \<Rightarrow> bool" where
  "live h (ObjR b) = (b < length h)"
| "live h _ = True"

definition new_obj :: "heap \<Rightarrow> obj \<Rightarrow> heap \<times> nat" where
  "new_obj h ob = (h @ [ob], length h)"

definition heap_setitem :: "heap \<Rightarrow> nat \<Rightarrow> string \<Rightarrow> tensor \<Rightarrow> heap" where
  "heap_setitem h a k v = h[a := set_contents (h ! a) (setitem (contents (h ! a)) k v)]"

text \<open>
  The loop of a comprehension that fills the dictionary at address \<open>a\<close>; the item
  expression reads the store as it is when its turn comes.
\<close>

fun heap_dict_loop ::
  "(heap \<Rightarrow> 'x \<Rightarrow> py_error + string \<times> tensor) \<Rightarrow> 'x list \<Rightarrow> nat \<Rightarrow> heap
     \<Rightarrow> heap \<times> (py_error + nat)" where
  "heap_dict_loop f [] a h = (h, Inr a)"
| "heap_dict_loop f (x # xs) a h =
     (case f h x of Inl e \<Rightarrow> (h, Inl e)
      | Inr (k, v) \<Rightarrow> heap_dict_loop f xs a (heap_setitem h a k v))"

definition heap_dict_comp ::
  "(heap \<Rightarrow> 'x \<Rightarrow> py_error + string \<times> tensor) \<Rightarrow> 'x list \<Rightarrow> heap \<Rightarrow> heap \<times> (py_error + nat)" where
  "heap_dict_comp f xs h = (case new_obj h (DictObj []) of (h1, a) \<Rightarrow> heap_dict_loop f xs a h1)"

text \<open>
  \<^verbatim>\<open>ParamDict(d)\<close> for the dictionary at address \<open>d\<close>: a new, empty \<^verbatim>\<open>ParamDict\<close> that
  \<^verbatim>\<open>OrderedDict.__init__\<close> fills with the items of \<open>d\<close>.
\<close>

fun heap_update_pairs :: "heap \<Rightarrow> nat \<Rightarrow> (string \<times> tensor) list \<Rightarrow> heap" where
  "heap_update_pairs h p [] = h"
| "heap_update_pairs h p ((k, v) # ps) = heap_update_pairs (heap_setitem h p k v) p ps"

definition heap_ParamDict :: "heap \<Rightarrow> nat \<Rightarrow> heap \<times> (py_error + nat)" where
  "heap_ParamDict h d =
     (case new_obj h (ParamDictObj []) of
        (h1, p) \<Rightarrow> (heap_update_pairs h1 p (contents (h1 ! d)), Inr p))"

definition heap_prototype :: "heap \<Rightarrow> nat \<Rightarrow> ref \<Rightarrow> binop \<Rightarrow> heap \<times> (py_error + nat)" where
  "heap_prototype h self other op =
     (case other of
        NumberR n \<Rightarrow>
          (case heap_dict_comp (\<lambda>h'. number_item op n) (contents (h ! self)) h of
             (h1, Inl e) \<Rightarrow> (h1, Inl e) | (h1, Inr d) \<Rightarrow> heap_ParamDict h1 d)
      | ObjR b \<Rightarrow>
          (case heap_dict_comp (\<lambda>h'. dict_item (contents (h' ! self)) (contents (h' ! b)) op)
                  (map fst (contents (h ! self))) h of
             (h1, Inl e) \<Rightarrow> (h1, Inl e) | (h1, Inr d) \<Rightarrow> heap_ParamDict h1 d)
      | TensorR t \<Rightarrow> (h, Inl NotImplementedError)
      | NoneR \<Rightarrow> (h, Inl NotImplementedError))"

definition heap_add :: "heap \<Rightarrow> nat \<Rightarrow> ref \<Rightarrow> heap \<times> (py_error + nat)" where
  "heap_add h self other = heap_prototype h self other Add"

definition heap_rmul :: "heap \<Rightarrow> nat \<Rightarrow> ref \<Rightarrow> heap \<times> (py_error + nat)" where
  "heap_rmul h self other = heap_prototype h self other Mul"

definition heap_mul :: "heap \<Rightarrow> nat \<Rightarrow> ref \<Rightarrow> heap \<times> (py_error + nat)" where
  "heap_mul = heap_rmul"

definition heap_truediv :: "heap \<Rightarrow> nat \<Rightarrow> ref \<Rightarrow> heap \<times> (py_error + nat)" where
  "heap_truediv h self other = heap_prototype h self other TrueDiv"

definition heap_neg :: "heap \<Rightarrow> nat \<Rightarrow> heap \<times> (py_error + nat)" where
  "heap_neg h self =
     (case heap_dict_comp (\<lambda>h'. neg_item) (contents (h ! self)) h of
        (h1, Inl e) \<Rightarrow> (h1, Inl e) | (h1, Inr d) \<Rightarrow> heap_ParamDict h1 d)"

text \<open>
  \<^verbatim>\<open>__rsub__\<close> on the store: \<^verbatim>\<open>other.__neg__()\<close> is the method of the class of the
  object that \<open>other\<close> refers to, and its result is the operand of \<^verbatim>\<open>__add__\<close>.
\<close>

definition heap_rsub :: "heap \<Rightarrow> nat \<Rightarrow> ref \<Rightarrow> heap \<times> (py_error + nat)" where
  "heap_rsub h self other =
     (case other of
        NumberR n \<Rightarrow> heap_add h self (NumberR (- n))
      | ObjR b \<Rightarrow>
          (case h ! b of
             ParamDictObj _ \<Rightarrow>
               (case heap_neg h b of
                  (h1, Inl e) \<Rightarrow> (h1, Inl e) | (h1, Inr nb) \<Rightarrow> heap_add h1 self (ObjR nb))
           | DictObj _ \<Rightarrow> (h, Inl AttributeError))
      | TensorR t \<Rightarrow> heap_add h self (TensorR (tensor_neg t))
      | NoneR \<Rightarrow> (h, Inl AttributeError))"

definition heap_sub :: "heap \<Rightarrow> nat \<Rightarrow> ref \<Rightarrow> heap \<times> (py_error + nat)" where
  "heap_sub = heap_rsub"

text \<open>What a reference denotes in a store, as an operand of the operations on values.\<close>

fun operand_of :: "heap \<Rightarrow> ref \<Rightarrow> operand" where
  "operand_of h (NumberR n) = Number n"
| "operand_of h (ObjR b) =
     (case h ! b of ParamDictObj d \<Rightarrow> ParamDictV d | DictObj d \<Rightarrow> DictV d)"
| "operand_of h (TensorR t) = TensorV t"
| "operand_of h NoneR = NoneV"

text \<open>
  An operation that ends in the pair \<open>r\<close> of a store and a result leaves the store \<open>h\<close>
  it started from as it was when every object of \<open>h\<close> is in the new store at its address,
  unchanged, and the result, when there is one, is an object that \<open>h\<close> did not have.
\<close>

definition fresh_result :: "heap \<Rightarrow> heap \<times> (py_error + nat) \<Rightarrow> bool" where
  "fresh_result h r =
     (take (length h) (fst r) = h \<and>
      (case snd r of Inl e \<Rightarrow> True | Inr p \<Rightarrow> length h \<le> p \<and> p < length (fst r)))"

text \<open>
  Two stores of the same size that hold the same objects everywhere but at the address
  \<open>a\<close>; the loop of a comprehension writes at the address of its own dictionary only.
\<close>

definition same_off :: "nat \<Rightarrow> heap \<Rightarrow> heap \<Rightarrow> bool" where
  "same_off a h h' = (length h' = length h \<and> (\<forall>i. i \<noteq> a \<longrightarrow> h' ! i = h ! i))"

section \<open>Facts about dictionaries and comprehensions\<close>

lemma setitem_fresh: "k \<notin> fst ` set d \<Longrightarrow> setitem d k v = d @ [(k, v)]"
  by (induction d) auto

lemma update_pairs_distinct:
  "distinct (map fst (d @ m)) \<Longrightarrow> update_pairs d m = d @ m"
proof (induction m arbitrary: d)
  case Nil
  then show ?case by simp
next
  case (Cons p m)
  obtain k v where p: "p = (k, v)" by (cases p)
  from Cons.prems p have fresh: "k \<notin> fst ` set d" by auto
  from Cons.prems p have "distinct (map fst ((d @ [(k, v)]) @ m))" by auto
  from Cons.IH [OF this] fresh p show ?case by (simp add: setitem_fresh)
qed

lemma ParamDict_total: "ParamDict d = Inr (update_pairs [] d)"
  by (simp add: ParamDict_def ParamDict_init_def)

lemma ParamDict_distinct: "distinct (map fst d) \<Longrightarrow> ParamDict d = Inr d"
  by (simp add: ParamDict_total update_pairs_distinct)

lemma dict_comp_distinct:
  "\<lbrakk>\<And>x. x \<in> set xs \<Longrightarrow> f x = Inr (key x, g x); distinct (map fst acc @ map key xs)\<rbrakk>
   \<Longrightarrow> dict_comp f xs acc = Inr (acc @ map (\<lambda>x. (key x, g x)) xs)"
proof (induction xs arbitrary: acc)
  case Nil
  then show ?case by simp
next
  case (Cons x xs)
  have fx: "f x = Inr (key x, g x)" using Cons.prems(1) by simp
  have fresh: "key x \<notin> fst ` set acc" using Cons.prems(2) by auto
  have "distinct (map fst (acc @ [(key x, g x)]) @ map key xs)"
    using Cons.prems(2) by auto
  with Cons.IH [of "acc @ [(key x, g x)]"] Cons.prems(1)
  have "dict_comp f xs (acc @ [(key x, g x)]) =
        Inr ((acc @ [(key x, g x)]) @ map (\<lambda>x. (key x, g x)) xs)"
    by simp
  with fx fresh show ?case by (simp add: setitem_fresh)
qed

lemma dict_comp_error:
  "\<exists>x\<in>set xs. isl (f x) \<Longrightarrow> \<exists>x\<in>set xs. isl (f x) \<and> dict_comp f xs acc = Inl (projl (f x))"
proof (induction xs arbitrary: acc)
  case Nil
  then show ?case by simp
next
  case (Cons x xs)
  show ?case
  proof (cases "f x")
    case (Inl e)
    then show ?thesis by auto
  next
    case (Inr kv)
    with Cons.prems have "\<exists>y\<in>set xs. isl (f y)" by auto
    from Cons.IH [OF this, of "setitem acc (fst kv) (snd kv)"] Inr
    show ?thesis by (auto simp: case_prod_beta)
  qed
qed

lemma dict_comp_Inl:
  "dict_comp f xs acc = Inl e \<Longrightarrow> \<exists>x\<in>set xs. f x = Inl e"
proof (induction xs arbitrary: acc)
  case Nil
  then show ?case by simp
next
  case (Cons x xs)
  then show ?case by (cases "f x") (auto split: prod.splits)
qed

lemma setitem_items: "set (setitem d k v) \<subseteq> insert (k, v) (set d)"
  by (induction d) (auto split: if_splits)

lemma dict_comp_values:
  "\<lbrakk>dict_comp f xs acc = Inr r; \<And>x k v. f x = Inr (k, v) \<Longrightarrow> P v; \<forall>p\<in>set acc. P (snd p)\<rbrakk>
   \<Longrightarrow> \<forall>p\<in>set r. P (snd p)"
proof (induction xs arbitrary: acc)
  case Nil
  then show ?case by simp
next
  case (Cons x xs)
  from Cons.prems(1) obtain k v where fx: "f x = Inr (k, v)"
    and rest: "dict_comp f xs (setitem acc k v) = Inr r"
    by (cases "f x") (auto split: prod.splits)
  from fx have "P v" by (rule Cons.prems(2))
  with Cons.prems(3) setitem_items [of acc k v]
  have acc': "\<forall>p\<in>set (setitem acc k v). P (snd p)" by auto
  show ?case
    by (rule Cons.IH [OF rest _ acc']) (rule Cons.prems(2))
qed

lemma update_pairs_items: "set (update_pairs d m) \<subseteq> set d \<union> set m"
proof (induction m arbitrary: d)
  case Nil
  then show ?case by simp
next
  case (Cons p m)
  obtain k v where p: "p = (k, v)" by (cases p)
  from Cons.IH [of "setitem d k v"] setitem_items [of d k v] p
  show ?case by auto
qed

lemma getitem_map_of:
  "getitem d k = (case map_of d k of None \<Rightarrow> Inl (KeyError k) | Some v \<Rightarrow> Inr v)"
  by (induction d) auto

lemma getitem_present:
  "k \<in> fst ` set d \<Longrightarrow> getitem d k = Inr (the (map_of d k))"
  by (cases "map_of d k") (simp_all add: getitem_map_of map_of_eq_None_iff)

lemma getitem_absent:
  "k \<notin> fst ` set d \<Longrightarrow> getitem d k = Inl (KeyError k)"
  by (simp add: getitem_map_of map_of_eq_None_iff [symmetric])

section \<open>Facts about the operations\<close>

lemma tensor_tensor_cpu:
  "tensor_tensor op (cpu a) (cpu b) = Inr \<lparr>data = operator op (data a) (data b), device = CPU\<rparr>"
  by (simp add: tensor_tensor_def cpu_def)

lemma cpu_tensor_number:
  "cpu (tensor_number op v n) = \<lparr>data = operator op (data v) n, device = CPU\<rparr>"
  by (simp add: cpu_def tensor_number_def)

lemma prototype_same_dict: "prototype self (ParamDictV d) op = prototype self (DictV d) op"
  by (simp add: prototype_def)

lemma prototype_number:
  assumes "distinct (map fst self)"
  shows "prototype self (Number n) op =
         Inr (map (\<lambda>(k, v). (k, \<lparr>data = operator op (data v) n, device = CPU\<rparr>)) self)"
proof -
  let ?g = "\<lambda>x. \<lparr>data = operator op (data (snd x)) n, device = CPU\<rparr>"
  have "dict_comp (number_item op n) self [] = Inr ([] @ map (\<lambda>x. (fst x, ?g x)) self)"
    using assms
    by (intro dict_comp_distinct) (auto simp: number_item_def cpu_tensor_number case_prod_beta)
  moreover have "distinct (map fst (map (\<lambda>x. (fst x, ?g x)) self))"
    using assms by (simp add: comp_def)
  ultimately show ?thesis
    by (simp add: prototype_def ParamDict_distinct case_prod_beta)
qed

lemma prototype_dict:
  assumes dist: "distinct (map fst self)" and sub: "fst ` set self \<subseteq> fst ` set d"
  shows "prototype self (DictV d) op =
         Inr (map (\<lambda>(k, v). (k, \<lparr>data = operator op (data v) (data (the (map_of d k))),
                                  device = CPU\<rparr>)) self)"
proof -
  let ?g = "\<lambda>k. \<lparr>data = operator op (data (the (map_of self k))) (data (the (map_of d k))),
                  device = CPU\<rparr>"
  have f: "dict_item self d op k = Inr (k, ?g k)" if "k \<in> set (map fst self)" for k
  proof -
    from that have "k \<in> fst ` set self" by simp
    moreover from this sub have "k \<in> fst ` set d" by blast
    ultimately show ?thesis
      by (simp add: dict_item_def getitem_present tensor_tensor_cpu)
  qed
  have "dict_comp (dict_item self d op) (map fst self) [] =
        Inr ([] @ map (\<lambda>k. (k, ?g k)) (map fst self))"
    using dist f by (intro dict_comp_distinct) auto
  moreover have "map (\<lambda>k. (k, ?g k)) (map fst self) =
        map (\<lambda>(k, v). (k, \<lparr>data = operator op (data v) (data (the (map_of d k))), device = CPU\<rparr>)) self"
    using dist by (auto simp: case_prod_beta)
  moreover have "distinct (map fst (map (\<lambda>k. (k, ?g k)) (map fst self)))"
    using dist by (simp add: comp_def)
  ultimately show ?thesis
    by (simp add: prototype_def ParamDict_distinct)
qed

lemma dict_item_error: "dict_item self d op k = Inl e \<Longrightarrow> e = KeyError k"
  by (auto simp: dict_item_def getitem_map_of tensor_tensor_cpu split: sum.splits option.splits)

lemma dict_item_missing:
  "k \<in> fst ` set self \<Longrightarrow> k \<notin> fst ` set d \<Longrightarrow> dict_item self d op k = Inl (KeyError k)"
  by (simp add: dict_item_def getitem_present getitem_absent)

lemma dict_item_isl:
  "k \<in> fst ` set self \<Longrightarrow> isl (dict_item self d op k) \<Longrightarrow> k \<notin> fst ` set d"
  by (rule notI) (simp add: dict_item_def getitem_present tensor_tensor_cpu)

lemma prototype_missing_key:
  assumes "k \<in> fst ` set self" "k \<notin> fst ` set d"
  shows "\<exists>k'. k' \<in> fst ` set self \<and> k' \<notin> fst ` set d \<and>
              prototype self (DictV d) op = Inl (KeyError k')"
proof -
  from assms have "isl (dict_item self d op k)" by (simp add: dict_item_missing)
  with assms(1) have "\<exists>x\<in>set (map fst self). isl (dict_item self d op x)"
    by (intro bexI [of _ k]) simp_all
  from dict_comp_error [OF this, of "[]"]
  obtain k' where k': "k' \<in> set (map fst self)" "isl (dict_item self d op k')"
    and r: "dict_comp (dict_item self d op) (map fst self) [] = Inl (projl (dict_item self d op k'))"
    by blast
  from k' have ks: "k' \<in> fst ` set self" by simp
  from dict_item_isl [OF ks k'(2)] have nd: "k' \<notin> fst ` set d" .
  with ks have "dict_item self d op k' = Inl (KeyError k')" by (rule dict_item_missing)
  with r nd ks show ?thesis by (intro exI [of _ k']) (simp add: prototype_def)
qed

lemma prototype_NotImplemented:
  "prototype self other op = Inl NotImplementedError \<longleftrightarrow>
   (case other of TensorV t \<Rightarrow> True | NoneV \<Rightarrow> True | _ \<Rightarrow> False)"
proof (cases other)
  case (Number n)
  have "dict_comp (number_item op n) self [] \<noteq> Inl e" for e
    using dict_comp_Inl [of "number_item op n" self "[]" e]
    by (auto simp: number_item_def)
  with Number show ?thesis
    by (auto simp: prototype_def ParamDict_total split: sum.splits)
next
  case (DictV d)
  have "dict_comp (dict_item self d op) (map fst self) [] \<noteq> Inl NotImplementedError"
    using dict_comp_Inl [of "dict_item self d op" "map fst self" "[]" NotImplementedError]
    by (auto dest: dict_item_error)
  with DictV show ?thesis
    by (auto simp: prototype_def ParamDict_total split: sum.splits)
next
  case (ParamDictV d)
  have "dict_comp (dict_item self d op) (map fst self) [] \<noteq> Inl NotImplementedError"
    using dict_comp_Inl [of "dict_item self d op" "map fst self" "[]" NotImplementedError]
    by (auto dest: dict_item_error)
  with ParamDictV show ?thesis
    by (auto simp: prototype_def ParamDict_total split: sum.splits)
qed (simp_all add: prototype_def)

lemma prototype_on_host:
  assumes "prototype self other op = Inr r"
  shows "\<forall>p\<in>set r. device (snd p) = CPU"
proof -
  have num: "\<forall>p\<in>set c. device (snd p) = CPU"
    if "dict_comp (number_item op n) self [] = Inr c" for n c
    using that
    by (rule dict_comp_values) (auto simp: number_item_def cpu_def)
  have dic: "\<forall>p\<in>set c. device (snd p) = CPU"
    if "dict_comp (dict_item self d op) (map fst self) [] = Inr c" for d c
    using that
    by (rule dict_comp_values)
       (auto simp: dict_item_def tensor_tensor_cpu split: sum.splits)
  from assms obtain c where "r = update_pairs [] c" "\<forall>p\<in>set c. device (snd p) = CPU"
    by (cases other) (auto simp: prototype_def ParamDict_total split: sum.splits dest: num dic)
  with update_pairs_items [of "[]" c] show ?thesis by auto
qed

lemma ParamDict_neg_distinct:
  assumes "distinct (map fst self)"
  shows "ParamDict_neg self = Inr (map (\<lambda>(k, v). (k, tensor_neg v)) self)"
proof -
  have "dict_comp neg_item self [] = Inr ([] @ map (\<lambda>x. (fst x, tensor_neg (snd x))) self)"
    using assms by (intro dict_comp_distinct) (auto simp: neg_item_def case_prod_beta)
  moreover have "distinct (map fst (map (\<lambda>x. (fst x, tensor_neg (snd x))) self))"
    using assms by (simp add: comp_def)
  ultimately show ?thesis
    by (simp add: ParamDict_neg_def ParamDict_distinct case_prod_beta)
qed

lemma dict_comp_succeeds:
  assumes "\<forall>x\<in>set xs. \<not> isl (f x)"
  shows "\<not> isl (dict_comp f xs acc)"
proof
  assume "isl (dict_comp f xs acc)"
  then obtain e where "dict_comp f xs acc = Inl e" by (cases "dict_comp f xs acc") auto
  from dict_comp_Inl [OF this] assms show False by auto
qed

lemma prototype_number_succeeds: "\<not> isl (prototype self (Number n) op)"
proof -
  have "\<not> isl (dict_comp (number_item op n) self [])"
    by (rule dict_comp_succeeds) (auto simp: number_item_def)
  then show ?thesis
    by (auto simp: prototype_def ParamDict_total split: sum.splits)
qed

lemma prototype_dict_succeeds:
  assumes "fst ` set self \<subseteq> fst ` set d"
  shows "\<not> isl (prototype self (DictV d) op)"
proof -
  have "\<not> isl (dict_item self d op k)" if "k \<in> fst ` set self" for k
  proof -
    from that assms have "k \<in> fst ` set d" by blast
    with that show ?thesis by (simp add: dict_item_def getitem_present tensor_tensor_cpu)
  qed
  then have "\<not> isl (dict_comp (dict_item self d op) (map fst self) [])"
    by (intro dict_comp_succeeds) simp
  then show ?thesis
    by (auto simp: prototype_def ParamDict_total split: sum.splits)
qed

lemma map_of_neg:
  "k \<in> fst ` set B \<Longrightarrow>
   the (map_of (map (\<lambda>(k, v). (k, tensor_neg v)) B) k) = tensor_neg (the (map_of B k))"
  by (cases "map_of B k") (simp_all add: map_of_map map_of_eq_None_iff)

lemma rsub_ParamDict:
  assumes A: "distinct (map fst A)" and B: "distinct (map fst B)"
    and keys: "fst ` set A \<subseteq> fst ` set B"
  shows "ParamDict_rsub A (ParamDictV B) =
         Inr (map (\<lambda>(k, v). (k, \<lparr>data = data v + (- data (the (map_of B k))), device = CPU\<rparr>)) A)"
proof -
  let ?nB = "map (\<lambda>(k, v). (k, tensor_neg v)) B"
  have keys': "fst ` set A \<subseteq> fst ` set ?nB" using keys by (force simp: image_iff)
  have "ParamDict_rsub A (ParamDictV B) = prototype A (DictV ?nB) Add"
    by (simp add: ParamDict_rsub_def ParamDict_neg_distinct [OF B] ParamDict_add_def
        prototype_same_dict)
  also have "\<dots> = Inr (map (\<lambda>(k, v). (k, \<lparr>data = operator Add (data v) (data (the (map_of ?nB k))),
                                            device = CPU\<rparr>)) A)"
    by (rule prototype_dict [OF A keys'])
  also have "\<dots> = Inr (map (\<lambda>(k, v). (k, \<lparr>data = data v + (- data (the (map_of B k))),
                                            device = CPU\<rparr>)) A)"
  proof -
    have "data (the (map_of ?nB k)) = - data (the (map_of B k))" if "(k, v) \<in> set A" for k v
    proof -
      from that keys have "k \<in> fst ` set B" by force
      from map_of_neg [OF this] show ?thesis by (simp add: tensor_neg_def)
    qed
    then show ?thesis by auto
  qed
  finally show ?thesis .
qed

lemma rsub_Number:
  assumes "distinct (map fst A)"
  shows "ParamDict_rsub A (Number s) =
         Inr (map (\<lambda>(k, v). (k, \<lparr>data = data v + (- s), device = CPU\<rparr>)) A)"
  by (simp add: ParamDict_rsub_def ParamDict_add_def prototype_number [OF assms])

section \<open>Facts about the store\<close>

lemma length_heap_setitem [simp]: "length (heap_setitem h a k v) = length h"
  by (simp add: heap_setitem_def)

lemma take_heap_setitem: "n \<le> a \<Longrightarrow> take n (heap_setitem h a k v) = take n h"
  by (simp add: heap_setitem_def)

lemma heap_dict_loop_keeps:
  "n \<le> a \<Longrightarrow> a < length h \<Longrightarrow>
   take n (fst (heap_dict_loop f xs a h)) = take n h
   \<and> length (fst (heap_dict_loop f xs a h)) = length h
   \<and> (case snd (heap_dict_loop f xs a h) of Inl e \<Rightarrow> True | Inr p \<Rightarrow> p = a)"
proof (induction xs arbitrary: h)
  case Nil
  then show ?case by simp
next
  case (Cons x xs)
  show ?case
  proof (cases "f h x")
    case (Inl e)
    then show ?thesis by simp
  next
    case (Inr kv)
    obtain k v where kv: "kv = (k, v)" by (cases kv)
    from Cons.prems have "a < length (heap_setitem h a k v)" by simp
    from Cons.IH [OF Cons.prems(1) this] Inr kv Cons.prems(1)
    show ?thesis by (simp add: take_heap_setitem)
  qed
qed

lemma heap_update_pairs_keeps:
  "n \<le> p \<Longrightarrow> take n (heap_update_pairs h p ps) = take n h
   \<and> length (heap_update_pairs h p ps) = length h"
proof (induction ps arbitrary: h)
  case Nil
  then show ?case by simp
next
  case (Cons kv ps)
  obtain k v where kv: "kv = (k, v)" by (cases kv)
  from Cons.IH [OF Cons.prems, of "heap_setitem h p k v"] kv Cons.prems
  show ?case by (simp add: take_heap_setitem)
qed

lemma fresh_result_trans:
  assumes "take (length h) h1 = h" and "length h \<le> length h1" and "fresh_result h1 r"
  shows "fresh_result h r"
proof -
  from assms(3) have t: "take (length h1) (fst r) = h1" by (simp add: fresh_result_def)
  have "take (length h) (fst r) = take (length h) (take (length h1) (fst r))"
    using assms(2) by (simp add: min_def)
  with t assms(1) have "take (length h) (fst r) = h" by simp
  with assms(2,3) show ?thesis
    by (auto simp: fresh_result_def split: sum.splits)
qed

lemma fresh_result_error: "fresh_result h (h, Inl e)"
  by (simp add: fresh_result_def)

lemma heap_dict_comp_fresh:
  "take (length h) (fst (heap_dict_comp f xs h)) = h
   \<and> length (fst (heap_dict_comp f xs h)) = Suc (length h)
   \<and> (case snd (heap_dict_comp f xs h) of Inl e \<Rightarrow> True | Inr p \<Rightarrow> p = length h)"
  using heap_dict_loop_keeps [of "length h" "length h" "h @ [DictObj []]" f xs]
  by (simp add: heap_dict_comp_def new_obj_def)

lemma heap_ParamDict_fresh: "fresh_result h (heap_ParamDict h d)"
  using heap_update_pairs_keeps [of "length h" "length h" "h @ [ParamDictObj []]"
      "contents ((h @ [ParamDictObj []]) ! d)"]
  by (simp add: heap_ParamDict_def new_obj_def fresh_result_def)

lemma comp_then_ParamDict_fresh:
  "fresh_result h (case heap_dict_comp f xs h of
                     (h1, Inl e) \<Rightarrow> (h1, Inl e) | (h1, Inr d) \<Rightarrow> heap_ParamDict h1 d)"
proof (cases "heap_dict_comp f xs h")
  case (Pair h1 r)
  with heap_dict_comp_fresh [of h f xs]
  have t: "take (length h) h1 = h" and l: "length h1 = Suc (length h)" by simp_all
  show ?thesis
  proof (cases r)
    case (Inl e)
    with Pair t show ?thesis by (simp add: fresh_result_def)
  next
    case (Inr d)
    from l have "length h \<le> length h1" by simp
    from fresh_result_trans [OF t this heap_ParamDict_fresh [of h1 d]] Pair Inr
    show ?thesis by simp
  qed
qed

lemma heap_prototype_fresh: "fresh_result h (heap_prototype h self other op)"
  by (cases other) (simp_all add: heap_prototype_def comp_then_ParamDict_fresh fresh_result_error)

lemma heap_neg_fresh: "fresh_result h (heap_neg h self)"
  by (simp add: heap_neg_def comp_then_ParamDict_fresh)

lemma fresh_result_length:
  "fresh_result h r \<Longrightarrow> take (length h) (fst r) = h \<and> length h \<le> length (fst r)"
proof -
  assume "fresh_result h r"
  then have t: "take (length h) (fst r) = h" by (simp add: fresh_result_def)
  then have "length (take (length h) (fst r)) = length h" by simp
  then have "length h \<le> length (fst r)" by simp
  with t show ?thesis by simp
qed

lemma heap_rsub_fresh: "fresh_result h (heap_rsub h self other)"
proof (cases other)
  case (ObjR b)
  show ?thesis
  proof (cases "h ! b")
    case (DictObj d)
    with ObjR show ?thesis by (simp add: heap_rsub_def fresh_result_error)
  next
    case (ParamDictObj d)
    obtain h1 r where n: "heap_neg h b = (h1, r)" by (cases "heap_neg h b")
    from heap_neg_fresh [of h b] n have f1: "fresh_result h (h1, r)" by simp
    show ?thesis
    proof (cases r)
      case (Inl e)
      with ObjR ParamDictObj n f1 show ?thesis by (simp add: heap_rsub_def)
    next
      case (Inr nb)
      from fresh_result_length [OF f1]
      have "take (length h) h1 = h" "length h \<le> length h1" by simp_all
      from fresh_result_trans [OF this heap_prototype_fresh [of h1 self "ObjR nb" Add]]
        ObjR ParamDictObj n Inr
      show ?thesis by (simp add: heap_rsub_def heap_add_def)
    qed
  qed
qed (simp_all add: heap_rsub_def heap_add_def heap_prototype_fresh fresh_result_error)

text \<open>
  The operations on the store compute what the operations on values compute: an error
  is the same error, and a result is a new \<^verbatim>\<open>ParamDict\<close> object with the items that the
  operation on values returns for the items of the operands.
\<close>

lemma contents_set_contents [simp]: "contents (set_contents ob d) = d"
  by (cases ob) simp_all

lemma heap_setitem_at:
  "a < length h \<Longrightarrow> contents (heap_setitem h a k v ! a) = setitem (contents (h ! a)) k v"
  by (simp add: heap_setitem_def)

lemma heap_setitem_off: "i \<noteq> a \<Longrightarrow> heap_setitem h a k v ! i = h ! i"
  by (simp add: heap_setitem_def)

lemma heap_setitem_class:
  "a < length h \<Longrightarrow> h ! a = ParamDictObj d \<Longrightarrow>
   heap_setitem h a k v ! a = ParamDictObj (setitem d k v)"
  by (simp add: heap_setitem_def)

lemma same_off_refl: "same_off a h h"
  by (simp add: same_off_def)

lemma same_off_setitem: "same_off a h h' \<Longrightarrow> same_off a h (heap_setitem h' a k v)"
  by (simp add: same_off_def heap_setitem_off)

lemma heap_dict_loop_refines:
  "a < length h \<Longrightarrow> same_off a h0 h \<Longrightarrow> (\<forall>h'. same_off a h0 h' \<longrightarrow> f h' = g) \<Longrightarrow>
   map_sum id (\<lambda>p. contents (fst (heap_dict_loop f xs a h) ! p))
           (snd (heap_dict_loop f xs a h))
         = dict_comp g xs (contents (h ! a))"
proof (induction xs arbitrary: h)
  case Nil
  show ?case by simp
next
  case (Cons x xs)
  from Cons.prems(2,3) have fh: "f h x = g x" by simp
  show ?case
  proof (cases "g x")
    case (Inl e)
    with fh show ?thesis by simp
  next
    case (Inr kv)
    obtain k v where kv: "kv = (k, v)" by (cases kv)
    let ?h1 = "heap_setitem h a k v"
    have a1: "a < length ?h1" using Cons.prems(1) by simp
    have s1: "same_off a h0 ?h1" using Cons.prems(2) by (rule same_off_setitem)
    have step: "heap_dict_loop f (x # xs) a h = heap_dict_loop f xs a ?h1"
      using fh Inr kv by simp
    have step': "dict_comp g (x # xs) (contents (h ! a))
                 = dict_comp g xs (setitem (contents (h ! a)) k v)"
      using Inr kv by simp
    from Cons.IH [OF a1 s1 Cons.prems(3)] heap_setitem_at [OF Cons.prems(1), of k v]
    show ?thesis unfolding step step' by simp
  qed
qed


lemma heap_dict_comp_refines:
  assumes "\<forall>h'. same_off (length h) (h @ [DictObj []]) h' \<longrightarrow> f h' = g"
  shows "map_sum id (\<lambda>p. contents (fst (heap_dict_comp f xs h) ! p))
           (snd (heap_dict_comp f xs h))
         = dict_comp g xs []"
proof -
  let ?h1 = "h @ [DictObj []]"
  have "length h < length ?h1" by simp
  from heap_dict_loop_refines [OF this same_off_refl assms, of xs]
  show ?thesis by (simp add: heap_dict_comp_def new_obj_def)
qed

lemma heap_update_pairs_at:
  "p < length h \<Longrightarrow> h ! p = ParamDictObj d \<Longrightarrow>
   heap_update_pairs h p ps ! p = ParamDictObj (update_pairs d ps)"
proof (induction ps arbitrary: h d)
  case Nil
  then show ?case by simp
next
  case (Cons kv ps)
  obtain k v where kv: "kv = (k, v)" by (cases kv)
  from Cons.prems have "p < length (heap_setitem h p k v)"
    and "heap_setitem h p k v ! p = ParamDictObj (setitem d k v)"
    by (simp_all add: heap_setitem_class)
  from Cons.IH [OF this] kv show ?case by simp
qed

lemma heap_ParamDict_refines:
  assumes "d < length h"
  shows "map_sum id (\<lambda>p. fst (heap_ParamDict h d) ! p) (snd (heap_ParamDict h d))
         = map_sum id ParamDictObj (ParamDict (contents (h ! d)))"
proof -
  let ?h1 = "h @ [ParamDictObj []]"
  have "length h < length ?h1" and "?h1 ! length h = ParamDictObj []" by simp_all
  from heap_update_pairs_at [OF this, of "contents (?h1 ! d)"] assms
  show ?thesis
    by (simp add: heap_ParamDict_def new_obj_def ParamDict_total nth_append)
qed


lemma comp_then_ParamDict_refines:
  assumes "\<forall>h'. same_off (length h) (h @ [DictObj []]) h' \<longrightarrow> f h' = g"
  shows "map_sum id (\<lambda>p. fst (case heap_dict_comp f xs h of
                                 (h1, Inl e) \<Rightarrow> (h1, Inl e)
                               | (h1, Inr d) \<Rightarrow> heap_ParamDict h1 d) ! p)
           (snd (case heap_dict_comp f xs h of
                   (h1, Inl e) \<Rightarrow> (h1, Inl e)
                 | (h1, Inr d) \<Rightarrow> heap_ParamDict h1 d))
         = map_sum id ParamDictObj
             (case dict_comp g xs [] of Inl e \<Rightarrow> Inl e | Inr c \<Rightarrow> ParamDict c)"
proof -
  obtain h1 r where c: "heap_dict_comp f xs h = (h1, r)" by (cases "heap_dict_comp f xs h")
  from heap_dict_comp_refines [OF assms, of xs] c
  have ref: "dict_comp g xs [] = map_sum id (\<lambda>p. contents (h1 ! p)) r" by simp
  from heap_dict_comp_fresh [of h f xs] c
  have len: "length h1 = Suc (length h)"
    and res: "case r of Inl e \<Rightarrow> True | Inr p \<Rightarrow> p = length h" by simp_all
  show ?thesis
  proof (cases r)
    case (Inl e)
    with c ref show ?thesis by simp
  next
    case (Inr d)
    with res len have "d < length h1" by simp
    from heap_ParamDict_refines [OF this] c Inr ref
    show ?thesis by simp
  qed
qed

lemma heap_prototype_refines:
  assumes "self < length h" and "live h other"
  shows "map_sum id (\<lambda>p. fst (heap_prototype h self other op) ! p)
           (snd (heap_prototype h self other op))
         = map_sum id ParamDictObj (prototype (contents (h ! self)) (operand_of h other) op)"
proof (cases other)
  case (NumberR n)
  have "\<forall>h'. same_off (length h) (h @ [DictObj []]) h' \<longrightarrow>
          (\<lambda>h'. number_item op n) h' = number_item op n" by simp
  from comp_then_ParamDict_refines [OF this, of "contents (h ! self)"] NumberR
  show ?thesis by (simp add: heap_prototype_def prototype_def)
next
  case (ObjR b)
  with assms have b: "b < length h" by simp
  let ?g = "dict_item (contents (h ! self)) (contents (h ! b)) op"
  have "\<forall>h'. same_off (length h) (h @ [DictObj []]) h' \<longrightarrow>
          (\<lambda>h'. dict_item (contents (h' ! self)) (contents (h' ! b)) op) h' = ?g"
    using assms(1) b by (simp add: same_off_def nth_append)
  from comp_then_ParamDict_refines [OF this, of "map fst (contents (h ! self))"] ObjR
  show ?thesis
    by (cases "h ! b") (simp_all add: heap_prototype_def prototype_def)
qed (simp_all add: heap_prototype_def prototype_def)

lemma heap_neg_refines:
  "map_sum id (\<lambda>p. fst (heap_neg h self) ! p) (snd (heap_neg h self))
     = map_sum id ParamDictObj (ParamDict_neg (contents (h ! self)))"
proof -
  have "\<forall>h'. same_off (length h) (h @ [DictObj []]) h' \<longrightarrow> (\<lambda>h'. neg_item) h' = neg_item"
    by simp
  from comp_then_ParamDict_refines [OF this, of "contents (h ! self)"]
  show ?thesis by (simp add: heap_neg_def ParamDict_neg_def)
qed


lemma fresh_result_nth:
  assumes "fresh_result h (h1, r)" and "i < length h"
  shows "h1 ! i = h ! i" and "i < length h1"
proof -
  from fresh_result_length [OF assms(1)]
  have t: "take (length h) h1 = h" and l: "length h \<le> length h1" by simp_all
  from assms(2) have "take (length h) h1 ! i = h1 ! i" by simp
  with t show "h1 ! i = h ! i" by simp
  from assms(2) l show "i < length h1" by simp
qed

lemma heap_rsub_refines:
  assumes "self < length h" and "live h other"
  shows "map_sum id (\<lambda>p. fst (heap_rsub h self other) ! p) (snd (heap_rsub h self other))
         = map_sum id ParamDictObj (ParamDict_rsub (contents (h ! self)) (operand_of h other))"
proof (cases other)
  case (NumberR n)
  from heap_prototype_refines [OF assms(1), of "NumberR (- n)" Add] NumberR
  show ?thesis by (simp add: heap_rsub_def heap_add_def ParamDict_rsub_def ParamDict_add_def)
next
  case (TensorR t)
  then show ?thesis
    by (simp add: heap_rsub_def heap_add_def heap_prototype_def ParamDict_rsub_def
        ParamDict_add_def prototype_def)
next
  case NoneR
  then show ?thesis by (simp add: heap_rsub_def ParamDict_rsub_def)
next
  case (ObjR b)
  show ?thesis
  proof (cases "h ! b")
    case (DictObj d)
    with ObjR show ?thesis by (simp add: heap_rsub_def ParamDict_rsub_def)
  next
    case (ParamDictObj d)
    obtain h1 r where n: "heap_neg h b = (h1, r)" by (cases "heap_neg h b")
    from heap_neg_refines [of h b] n ParamDictObj
    have neg: "map_sum id ParamDictObj (ParamDict_neg d) = map_sum id (\<lambda>p. h1 ! p) r" by simp
    from heap_neg_fresh [of h b] n have f1: "fresh_result h (h1, r)" by simp
    show ?thesis
    proof (cases r)
      case (Inl e)
      with neg have "ParamDict_neg d = Inl e" by (cases "ParamDict_neg d") simp_all
      with ObjR ParamDictObj n Inl show ?thesis
        by (simp add: heap_rsub_def ParamDict_rsub_def)
    next
      case (Inr nb)
      with neg obtain nd where nd: "ParamDict_neg d = Inr nd" and at: "h1 ! nb = ParamDictObj nd"
        by (cases "ParamDict_neg d") auto
      from f1 Inr have nb: "nb < length h1" by (simp add: fresh_result_def)
      from fresh_result_nth [OF f1 assms(1)]
      have self1: "h1 ! self = h ! self" "self < length h1" by simp_all
      from nb have "live h1 (ObjR nb)" by simp
      from heap_prototype_refines [OF self1(2) this, of Add] self1(1) at
      have "map_sum id (\<lambda>p. fst (heap_add h1 self (ObjR nb)) ! p) (snd (heap_add h1 self (ObjR nb)))
            = map_sum id ParamDictObj (ParamDict_add (contents (h ! self)) (ParamDictV nd))"
        by (simp add: heap_add_def ParamDict_add_def)
      with ObjR ParamDictObj n Inr nd show ?thesis
        by (simp add: heap_rsub_def ParamDict_rsub_def)
    qed
  qed
qed

section \<open>Properties of the class\<close>

subsection \<open>Subtraction\<close>

text \<open>
  C1. For a \<^verbatim>\<open>ParamDict\<close> \<open>A\<close> and an operand that is a \<^verbatim>\<open>ParamDict\<close> \<open>B\<close> with the keys
  of \<open>A\<close>, or a number \<open>s\<close>, \<^verbatim>\<open>A - B\<close> is \<^verbatim>\<open>A + (-B)\<close>: every value of the result is
  \<open>A[k] + (- B[k])\<close>, respectively \<open>A[k] + (- s)\<close>, held on the host. For
  \<open>A = {w1: 2, w2: 4}\<close> and \<open>B = {w1: 1, w2: 1}\<close> the result is \<open>{w1: 1, w2: 3}\<close>.
\<close>

theorem sub_is_add_neg:
  assumes "distinct (map fst A)" and "distinct (map fst B)"
    and "set (map fst B) = set (map fst A)"
  shows "ParamDict_sub A (ParamDictV B) =
           (case ParamDict_neg B of Inl e \<Rightarrow> Inl e
            | Inr nb \<Rightarrow> ParamDict_add A (ParamDictV nb))
       \<and> ParamDict_sub A (ParamDictV B) =
           Inr (map (\<lambda>(k, v). (k, \<lparr>data = data v + (- data (the (map_of B k))),
                                    device = CPU\<rparr>)) A)
       \<and> ParamDict_sub A (Number s) = ParamDict_add A (Number (- s))
       \<and> ParamDict_sub A (Number s) =
           Inr (map (\<lambda>(k, v). (k, \<lparr>data = data v + (- s), device = CPU\<rparr>)) A)"
proof -
  from assms(3) have keys: "fst ` set A \<subseteq> fst ` set B" by simp
  have "ParamDict_sub A (ParamDictV B) =
        (case ParamDict_neg B of Inl e \<Rightarrow> Inl e | Inr nb \<Rightarrow> ParamDict_add A (ParamDictV nb))"
    by (simp add: ParamDict_sub_def ParamDict_rsub_def split: sum.splits)
  moreover have "ParamDict_sub A (Number s) = ParamDict_add A (Number (- s))"
    by (simp add: ParamDict_sub_def ParamDict_rsub_def)
  ultimately show ?thesis
    using rsub_ParamDict [OF assms(1,2) keys] rsub_Number [OF assms(1)]
    by (simp add: ParamDict_sub_def)
qed

theorem sub_is_add_neg_witness:
  "distinct (map fst [(''w1'', \<lparr>data = 2, device = CPU\<rparr>), (''w2'', \<lparr>data = 4, device = CPU\<rparr>)])
   \<and> distinct (map fst [(''w1'', \<lparr>data = 1, device = CPU\<rparr>), (''w2'', \<lparr>data = 1, device = CPU\<rparr>)])
   \<and> ParamDict_sub [(''w1'', \<lparr>data = 2, device = CPU\<rparr>), (''w2'', \<lparr>data = 4, device = CPU\<rparr>)]
        (ParamDictV [(''w1'', \<lparr>data = 1, device = CPU\<rparr>), (''w2'', \<lparr>data = 1, device = CPU\<rparr>)])
      = Inr [(''w1'', \<lparr>data = 1, device = CPU\<rparr>), (''w2'', \<lparr>data = 3, device = CPU\<rparr>)]"
proof -
  let ?A = "[(''w1'', \<lparr>data = 2, device = CPU\<rparr>), (''w2'', \<lparr>data = 4, device = CPU\<rparr>)]"
  let ?B = "[(''w1'', \<lparr>data = 1, device = CPU\<rparr>), (''w2'', \<lparr>data = 1, device = CPU\<rparr>)]"
  have dA: "distinct (map fst ?A)" and dB: "distinct (map fst ?B)"
    and keys: "set (map fst ?B) = set (map fst ?A)"
    by simp_all
  from sub_is_add_neg [OF dA dB keys, of 0]
  have "ParamDict_sub ?A (ParamDictV ?B) =
        Inr (map (\<lambda>(k, v). (k, \<lparr>data = data v + (- data (the (map_of ?B k))), device = CPU\<rparr>)) ?A)"
    by blast
  with dA dB show ?thesis by simp
qed

subsection \<open>Division\<close>

text \<open>
  C2, as the code has it. \<^verbatim>\<open>__truediv__\<close> goes through \<^verbatim>\<open>_prototype\<close> like \<^verbatim>\<open>__add__\<close>,
  so it takes a number as well as a dictionary: for a number \<open>s\<close> other than zero every
  value of the result is \<open>A[k] / s\<close>, and for a dictionary \<open>B\<close> with the keys of \<open>A\<close> and
  no zero among its values every value is \<open>A[k] / B[k]\<close>; the result is held on the host.
  (Division by zero is left out: the tensor library answers it with an infinity or a
  not-a-number, which exact arithmetic does not have.)
\<close>

theorem truediv_number_or_dict:
  assumes "distinct (map fst A)"
  shows "(s \<noteq> 0 \<longrightarrow>
            ParamDict_truediv A (Number s) =
              Inr (map (\<lambda>(k, v). (k, \<lparr>data = data v / s, device = CPU\<rparr>)) A))
       \<and> (set (map fst B) = set (map fst A) \<and> (\<forall>p\<in>set B. data (snd p) \<noteq> 0) \<longrightarrow>
            ParamDict_truediv A (ParamDictV B) =
              Inr (map (\<lambda>(k, v). (k, \<lparr>data = data v / data (the (map_of B k)),
                                       device = CPU\<rparr>)) A)
          \<and> ParamDict_truediv A (DictV B) = ParamDict_truediv A (ParamDictV B))"
proof -
  have "ParamDict_truediv A (ParamDictV B) =
          Inr (map (\<lambda>(k, v). (k, \<lparr>data = data v / data (the (map_of B k)), device = CPU\<rparr>)) A)"
    if "set (map fst B) = set (map fst A)"
  proof -
    from that have "fst ` set A \<subseteq> fst ` set B" by simp
    from prototype_dict [OF assms this, of TrueDiv] show ?thesis
      by (simp add: ParamDict_truediv_def prototype_same_dict)
  qed
  then show ?thesis
    using prototype_number [OF assms, of s TrueDiv]
    by (simp add: ParamDict_truediv_def prototype_same_dict)
qed

theorem truediv_number_or_dict_witness:
  "distinct (map fst [(''w1'', \<lparr>data = 6, device = CUDA 0\<rparr>), (''w2'', \<lparr>data = 1, device = CPU\<rparr>)])
   \<and> (2::real) \<noteq> 0
   \<and> ParamDict_truediv [(''w1'', \<lparr>data = 6, device = CUDA 0\<rparr>), (''w2'', \<lparr>data = 1, device = CPU\<rparr>)]
        (Number 2)
      = Inr [(''w1'', \<lparr>data = 3, device = CPU\<rparr>), (''w2'', \<lparr>data = 1 / 2, device = CPU\<rparr>)]
   \<and> ParamDict_truediv [(''w1'', \<lparr>data = 6, device = CUDA 0\<rparr>), (''w2'', \<lparr>data = 1, device = CPU\<rparr>)]
        (ParamDictV [(''w2'', \<lparr>data = 4, device = CPU\<rparr>), (''w1'', \<lparr>data = 3, device = CUDA 1\<rparr>)])
      = Inr [(''w1'', \<lparr>data = 2, device = CPU\<rparr>), (''w2'', \<lparr>data = 1 / 4, device = CPU\<rparr>)]"
  using truediv_number_or_dict
    [of "[(''w1'', \<lparr>data = 6, device = CUDA 0\<rparr>), (''w2'', \<lparr>data = 1, device = CPU\<rparr>)]" 2
        "[(''w2'', \<lparr>data = 4, device = CPU\<rparr>), (''w1'', \<lparr>data = 3, device = CUDA 1\<rparr>)]"]
  by auto

text \<open>Dividing by a number does not fail: \<open>{w1: 6} / 3\<close> is \<open>{w1: 2}\<close>.\<close>

theorem truediv_number_counterexample:
  "ParamDict_truediv [(''w1'', \<lparr>data = 6, device = CPU\<rparr>)] (Number 3)
     = Inr [(''w1'', \<lparr>data = 2, device = CPU\<rparr>)]"
  by (simp add: ParamDict_truediv_def prototype_def number_item_def ParamDict_total
      tensor_number_def cpu_def)

subsection \<open>A missing key\<close>

text \<open>
  C3. When the dictionary \<open>B\<close> lacks a key of \<open>A\<close>, \<^verbatim>\<open>A + B\<close> raises a \<^verbatim>\<open>KeyError\<close>, for a
  key of \<open>A\<close> that \<open>B\<close> lacks; no dictionary over the common keys is returned.
\<close>

theorem add_missing_key:
  assumes "k \<in> set (map fst A)" and "k \<notin> set (map fst B)"
  shows "\<exists>k'. k' \<in> set (map fst A) \<and> k' \<notin> set (map fst B)
            \<and> ParamDict_add A (ParamDictV B) = Inl (KeyError k')
            \<and> ParamDict_add A (DictV B) = Inl (KeyError k')"
proof -
  from assms have "k \<in> fst ` set A" "k \<notin> fst ` set B" by simp_all
  from prototype_missing_key [OF this, of Add] show ?thesis
    by (simp add: ParamDict_add_def prototype_same_dict)
qed

theorem add_missing_key_witness:
  "''w1'' \<in> set (map fst [(''w1'', \<lparr>data = 2, device = CPU\<rparr>), (''w2'', \<lparr>data = 4, device = CPU\<rparr>)])
   \<and> ''w1'' \<notin> set (map fst [(''w2'', \<lparr>data = 1, device = CPU\<rparr>)])
   \<and> ParamDict_add [(''w1'', \<lparr>data = 2, device = CPU\<rparr>), (''w2'', \<lparr>data = 4, device = CPU\<rparr>)]
        (ParamDictV [(''w2'', \<lparr>data = 1, device = CPU\<rparr>)]) = Inl (KeyError ''w1'')"
  using add_missing_key [of "''w1''"
      "[(''w1'', \<lparr>data = 2, device = CPU\<rparr>), (''w2'', \<lparr>data = 4, device = CPU\<rparr>)]"
      "[(''w2'', \<lparr>data = 1, device = CPU\<rparr>)]"]
  by auto

subsection \<open>Operands that are refused\<close>

text \<open>
  C4. \<^verbatim>\<open>__add__\<close>, \<^verbatim>\<open>__rmul__\<close> (and \<^verbatim>\<open>__mul__\<close>) and \<^verbatim>\<open>__truediv__\<close> raise
  \<^verbatim>\<open>NotImplementedError\<close> exactly for the operands that are neither a number nor a
  dictionary, and the exception is the result of the operation. A number raises nothing,
  and neither does a dictionary with the keys of \<open>A\<close>.
\<close>

theorem unsupported_operand:
  "(ParamDict_add A other = Inl NotImplementedError \<longleftrightarrow> \<not> number_or_dict other)
   \<and> (ParamDict_rmul A other = Inl NotImplementedError \<longleftrightarrow> \<not> number_or_dict other)
   \<and> (ParamDict_mul A other = Inl NotImplementedError \<longleftrightarrow> \<not> number_or_dict other)
   \<and> (ParamDict_truediv A other = Inl NotImplementedError \<longleftrightarrow> \<not> number_or_dict other)
   \<and> \<not> isl (ParamDict_add A (Number s))
   \<and> \<not> isl (ParamDict_rmul A (Number s))
   \<and> \<not> isl (ParamDict_truediv A (Number s))
   \<and> (set (map fst B) = set (map fst A) \<longrightarrow>
        \<not> isl (ParamDict_add A (ParamDictV B)) \<and> \<not> isl (ParamDict_add A (DictV B))
        \<and> \<not> isl (ParamDict_rmul A (ParamDictV B)) \<and> \<not> isl (ParamDict_rmul A (DictV B))
        \<and> \<not> isl (ParamDict_truediv A (ParamDictV B)) \<and> \<not> isl (ParamDict_truediv A (DictV B)))"
proof -
  have nie: "prototype A other op = Inl NotImplementedError \<longleftrightarrow> \<not> number_or_dict other" for op
    by (cases other) (simp_all add: prototype_NotImplemented)
  have dict: "\<not> isl (prototype A (DictV B) op)" if "set (map fst B) = set (map fst A)" for op
  proof -
    from that have "fst ` set A \<subseteq> fst ` set B" by simp
    then show ?thesis by (rule prototype_dict_succeeds)
  qed
  show ?thesis
    using nie dict prototype_number_succeeds [of A s]
    by (simp add: ParamDict_add_def ParamDict_rmul_def ParamDict_mul_def ParamDict_truediv_def
        prototype_same_dict)
qed

theorem unsupported_operand_witness:
  "ParamDict_add [(''w1'', \<lparr>data = 2, device = CPU\<rparr>)] (TensorV \<lparr>data = 1, device = CPU\<rparr>)
     = Inl NotImplementedError
   \<and> ParamDict_truediv [(''w1'', \<lparr>data = 2, device = CPU\<rparr>)] NoneV = Inl NotImplementedError
   \<and> set (map fst [(''w1'', \<lparr>data = 5, device = CUDA 0\<rparr>)])
       = set (map fst [(''w1'', \<lparr>data = 2, device = CPU\<rparr>)])
   \<and> \<not> isl (ParamDict_rmul [(''w1'', \<lparr>data = 2, device = CPU\<rparr>)]
               (DictV [(''w1'', \<lparr>data = 5, device = CUDA 0\<rparr>)]))"
  using unsupported_operand [of "[(''w1'', \<lparr>data = 2, device = CPU\<rparr>)]"
      "TensorV \<lparr>data = 1, device = CPU\<rparr>" 0 "[(''w1'', \<lparr>data = 5, device = CUDA 0\<rparr>)]"]
    unsupported_operand [of "[(''w1'', \<lparr>data = 2, device = CPU\<rparr>)]" NoneV 0 "[]"]
  by simp

subsection \<open>Round trips\<close>

text \<open>
  C6. For a \<^verbatim>\<open>ParamDict\<close> \<open>A\<close> and a number \<open>s\<close>, \<^verbatim>\<open>(A + s) + (-s)\<close> succeeds and has the
  items of \<open>A\<close>, key by key and number by number. Its tensors are those of \<open>A\<close> moved to
  the host, so it is \<open>A\<close> itself when \<open>A\<close> is held on the host.
\<close>

theorem add_number_round_trip:
  assumes "distinct (map fst A)"
  shows "\<exists>A1 R. ParamDict_add A (Number s) = Inr A1
            \<and> ParamDict_add A1 (Number (- s)) = Inr R
            \<and> numbers R = numbers A
            \<and> R = map (\<lambda>(k, v). (k, cpu v)) A
            \<and> ((\<forall>p\<in>set A. device (snd p) = CPU) \<longrightarrow> R = A)"
proof -
  let ?A1 = "map (\<lambda>(k, v). (k, \<lparr>data = data v + s, device = CPU\<rparr>)) A"
  let ?R = "map (\<lambda>(k, v). (k, \<lparr>data = data v + - s, device = CPU\<rparr>)) ?A1"
  have d1: "distinct (map fst ?A1)" using assms by (simp add: comp_def case_prod_beta)
  have 1: "ParamDict_add A (Number s) = Inr ?A1"
    using prototype_number [OF assms, of s Add] by (simp add: ParamDict_add_def)
  have 2: "ParamDict_add ?A1 (Number (- s)) = Inr ?R"
    using prototype_number [OF d1, of "- s" Add] by (simp add: ParamDict_add_def)
  have R: "?R = map (\<lambda>(k, v). (k, cpu v)) A"
    by (simp add: cpu_def case_prod_beta)
  have "numbers ?R = numbers A" by (simp add: numbers_def case_prod_beta comp_def)
  moreover have "?R = A" if "\<forall>p\<in>set A. device (snd p) = CPU"
  proof -
    have "map (\<lambda>(k, v). (k, cpu v)) A = map (\<lambda>p. p) A"
      using that by (intro map_cong) (auto simp: cpu_def)
    with R show ?thesis by simp
  qed
  ultimately show ?thesis using 1 2 R by blast
qed

theorem add_number_round_trip_witness:
  "distinct (map fst [(''w1'', \<lparr>data = 2, device = CPU\<rparr>), (''w2'', \<lparr>data = 4, device = CPU\<rparr>)])
   \<and> (\<exists>A1. ParamDict_add [(''w1'', \<lparr>data = 2, device = CPU\<rparr>), (''w2'', \<lparr>data = 4, device = CPU\<rparr>)]
              (Number 42) = Inr A1
          \<and> ParamDict_add A1 (Number (- 42))
              = Inr [(''w1'', \<lparr>data = 2, device = CPU\<rparr>), (''w2'', \<lparr>data = 4, device = CPU\<rparr>)])"
  using add_number_round_trip
    [of "[(''w1'', \<lparr>data = 2, device = CPU\<rparr>), (''w2'', \<lparr>data = 4, device = CPU\<rparr>)]" 42]
  by auto

text \<open>
  C7. For two \<^verbatim>\<open>ParamDict\<close>s \<open>A\<close> and \<open>B\<close> with the same keys, \<^verbatim>\<open>(A + B) - B\<close> succeeds and
  has the items of \<open>A\<close>, key by key and number by number. Its tensors are those of \<open>A\<close>
  moved to the host, so it is \<open>A\<close> itself when \<open>A\<close> is held on the host.
\<close>

theorem add_sub_inverse:
  assumes "distinct (map fst A)" and "distinct (map fst B)"
    and "set (map fst B) = set (map fst A)"
  shows "\<exists>D R. ParamDict_add A (ParamDictV B) = Inr D
            \<and> ParamDict_sub D (ParamDictV B) = Inr R
            \<and> numbers R = numbers A
            \<and> R = map (\<lambda>(k, v). (k, cpu v)) A
            \<and> ((\<forall>p\<in>set A. device (snd p) = CPU) \<longrightarrow> R = A)"
proof -
  from assms(3) have keys: "fst ` set A \<subseteq> fst ` set B" by simp
  let ?D = "map (\<lambda>(k, v). (k, \<lparr>data = data v + data (the (map_of B k)), device = CPU\<rparr>)) A"
  let ?R = "map (\<lambda>(k, v). (k, \<lparr>data = data v + (- data (the (map_of B k))), device = CPU\<rparr>)) ?D"
  have dD: "distinct (map fst ?D)" using assms(1) by (simp add: comp_def case_prod_beta)
  have keysD: "fst ` set ?D \<subseteq> fst ` set B" using keys by (force simp: image_iff)
  have 1: "ParamDict_add A (ParamDictV B) = Inr ?D"
    using prototype_dict [OF assms(1) keys, of Add]
    by (simp add: ParamDict_add_def prototype_same_dict)
  have 2: "ParamDict_sub ?D (ParamDictV B) = Inr ?R"
    using rsub_ParamDict [OF dD assms(2) keysD] by (simp add: ParamDict_sub_def)
  have R: "?R = map (\<lambda>(k, v). (k, cpu v)) A"
    by (simp add: cpu_def case_prod_beta)
  have "numbers ?R = numbers A" by (simp add: numbers_def case_prod_beta comp_def)
  moreover have "?R = A" if "\<forall>p\<in>set A. device (snd p) = CPU"
  proof -
    have "map (\<lambda>(k, v). (k, cpu v)) A = map (\<lambda>p. p) A"
      using that by (intro map_cong) (auto simp: cpu_def)
    with R show ?thesis by simp
  qed
  ultimately show ?thesis using 1 2 R by blast
qed

theorem add_sub_inverse_witness:
  "distinct (map fst [(''w1'', \<lparr>data = 2, device = CPU\<rparr>), (''w2'', \<lparr>data = 4, device = CPU\<rparr>)])
   \<and> distinct (map fst [(''w2'', \<lparr>data = 7, device = CUDA 0\<rparr>), (''w1'', \<lparr>data = 1, device = CPU\<rparr>)])
   \<and> (\<exists>D. ParamDict_add [(''w1'', \<lparr>data = 2, device = CPU\<rparr>), (''w2'', \<lparr>data = 4, device = CPU\<rparr>)]
             (ParamDictV [(''w2'', \<lparr>data = 7, device = CUDA 0\<rparr>), (''w1'', \<lparr>data = 1, device = CPU\<rparr>)])
             = Inr D
          \<and> ParamDict_sub D
               (ParamDictV [(''w2'', \<lparr>data = 7, device = CUDA 0\<rparr>), (''w1'', \<lparr>data = 1, device = CPU\<rparr>)])
             = Inr [(''w1'', \<lparr>data = 2, device = CPU\<rparr>), (''w2'', \<lparr>data = 4, device = CPU\<rparr>)])"
proof -
  let ?A = "[(''w1'', \<lparr>data = 2, device = CPU\<rparr>), (''w2'', \<lparr>data = 4, device = CPU\<rparr>)]"
  let ?B = "[(''w2'', \<lparr>data = 7, device = CUDA 0\<rparr>), (''w1'', \<lparr>data = 1, device = CPU\<rparr>)]"
  have dA: "distinct (map fst ?A)" and dB: "distinct (map fst ?B)" by simp_all
  have keys: "set (map fst ?B) = set (map fst ?A)" by auto
  from add_sub_inverse [OF dA dB keys]
  obtain D R where "ParamDict_add ?A (ParamDictV ?B) = Inr D"
    and "ParamDict_sub D (ParamDictV ?B) = Inr R"
    and "R = map (\<lambda>(k, v). (k, cpu v)) ?A"
    by blast
  then have "ParamDict_add ?A (ParamDictV ?B) = Inr D \<and> ParamDict_sub D (ParamDictV ?B) = Inr ?A"
    by (simp add: cpu_def)
  with dA dB show ?thesis by blast
qed

subsection \<open>Where the results are held\<close>

text \<open>
  C8. \<^verbatim>\<open>__neg__\<close> negates every value and leaves it on its device. Every value of a
  result of \<^verbatim>\<open>__add__\<close>, \<^verbatim>\<open>__rmul__\<close> or \<^verbatim>\<open>__truediv__\<close> is on the host. With a number
  \<open>n\<close>, each of the three returns, key by key, the result of its operator on the value
  and \<open>n\<close>, moved to the host afterwards; with a dictionary \<open>B\<close> that has the keys of
  \<open>A\<close>, each returns the result of its operator on the two values, both moved to the
  host beforehand, so that values on different devices combine. \<^verbatim>\<open>__mul__\<close> is
  \<^verbatim>\<open>__rmul__\<close>.
\<close>

theorem neg_keeps_device:
  assumes "distinct (map fst A)"
  shows "ParamDict_neg A = Inr (map (\<lambda>(k, v). (k, \<lparr>data = - data v, device = device v\<rparr>)) A)
       \<and> (\<forall>R. ParamDict_add A other = Inr R \<longrightarrow> (\<forall>p\<in>set R. device (snd p) = CPU))
       \<and> (\<forall>R. ParamDict_rmul A other = Inr R \<longrightarrow> (\<forall>p\<in>set R. device (snd p) = CPU))
       \<and> (\<forall>R. ParamDict_truediv A other = Inr R \<longrightarrow> (\<forall>p\<in>set R. device (snd p) = CPU))
       \<and> ParamDict_add A (Number n) =
           Inr (map (\<lambda>(k, v). (k, cpu (tensor_number Add v n))) A)
       \<and> ParamDict_rmul A (Number n) =
           Inr (map (\<lambda>(k, v). (k, cpu (tensor_number Mul v n))) A)
       \<and> ParamDict_mul A (Number n) = ParamDict_rmul A (Number n)
       \<and> ParamDict_truediv A (Number n) =
           Inr (map (\<lambda>(k, v). (k, cpu (tensor_number TrueDiv v n))) A)
       \<and> (set (map fst B) = set (map fst A) \<longrightarrow>
            ParamDict_add A (ParamDictV B) =
              Inr (map (\<lambda>(k, v).
                     (k, projr (tensor_tensor Add (cpu v) (cpu (the (map_of B k)))))) A)
            \<and> ParamDict_rmul A (ParamDictV B) =
              Inr (map (\<lambda>(k, v).
                     (k, projr (tensor_tensor Mul (cpu v) (cpu (the (map_of B k)))))) A)
            \<and> ParamDict_mul A (ParamDictV B) = ParamDict_rmul A (ParamDictV B)
            \<and> ParamDict_truediv A (ParamDictV B) =
              Inr (map (\<lambda>(k, v).
                     (k, projr (tensor_tensor TrueDiv (cpu v) (cpu (the (map_of B k)))))) A)
            \<and> ParamDict_add A (DictV B) = ParamDict_add A (ParamDictV B)
            \<and> ParamDict_rmul A (DictV B) = ParamDict_rmul A (ParamDictV B)
            \<and> ParamDict_truediv A (DictV B) = ParamDict_truediv A (ParamDictV B))"
proof -
  have num: "prototype A (Number n) op =
          Inr (map (\<lambda>(k, v). (k, cpu (tensor_number op v n))) A)" for op
    using prototype_number [OF assms, of n op] by (simp add: cpu_tensor_number)
  have dic: "prototype A (ParamDictV B) op =
          Inr (map (\<lambda>(k, v). (k, projr (tensor_tensor op (cpu v) (cpu (the (map_of B k)))))) A)"
    if "set (map fst B) = set (map fst A)" for op
  proof -
    from that have "fst ` set A \<subseteq> fst ` set B" by simp
    from prototype_dict [OF assms this, of op] show ?thesis
      by (simp add: tensor_tensor_cpu prototype_same_dict)
  qed
  have host: "\<forall>p\<in>set R. device (snd p) = CPU" if "prototype A other op = Inr R" for R op
    using that by (rule prototype_on_host)
  have neg: "ParamDict_neg A = Inr (map (\<lambda>(k, v). (k, \<lparr>data = - data v, device = device v\<rparr>)) A)"
    using ParamDict_neg_distinct [OF assms] by (simp add: tensor_neg_def)
  have same: "prototype A (DictV B) op = prototype A (ParamDictV B) op" for op
    by (simp add: prototype_same_dict)
  show ?thesis
    unfolding ParamDict_add_def ParamDict_mul_def ParamDict_rmul_def ParamDict_truediv_def
    using neg num dic host same by blast
qed

theorem neg_keeps_device_witness:
  "distinct (map fst [(''w1'', \<lparr>data = 2, device = CUDA 0\<rparr>), (''w2'', \<lparr>data = 4, device = CPU\<rparr>)])
   \<and> ParamDict_neg [(''w1'', \<lparr>data = 2, device = CUDA 0\<rparr>), (''w2'', \<lparr>data = 4, device = CPU\<rparr>)]
       = Inr [(''w1'', \<lparr>data = - 2, device = CUDA 0\<rparr>), (''w2'', \<lparr>data = - 4, device = CPU\<rparr>)]
   \<and> ParamDict_add [(''w1'', \<lparr>data = 2, device = CUDA 0\<rparr>), (''w2'', \<lparr>data = 4, device = CPU\<rparr>)]
        (Number 3)
       = Inr [(''w1'', \<lparr>data = 5, device = CPU\<rparr>), (''w2'', \<lparr>data = 7, device = CPU\<rparr>)]
   \<and> ParamDict_rmul [(''w1'', \<lparr>data = 2, device = CUDA 0\<rparr>), (''w2'', \<lparr>data = 4, device = CPU\<rparr>)]
        (Number 3)
       = Inr [(''w1'', \<lparr>data = 6, device = CPU\<rparr>), (''w2'', \<lparr>data = 12, device = CPU\<rparr>)]
   \<and> ParamDict_truediv [(''w1'', \<lparr>data = 2, device = CUDA 0\<rparr>), (''w2'', \<lparr>data = 4, device = CPU\<rparr>)]
        (Number 2)
       = Inr [(''w1'', \<lparr>data = 1, device = CPU\<rparr>), (''w2'', \<lparr>data = 2, device = CPU\<rparr>)]
   \<and> set (map fst [(''w1'', \<lparr>data = 1, device = CPU\<rparr>), (''w2'', \<lparr>data = 8, device = CUDA 1\<rparr>)])
       = set (map fst [(''w1'', \<lparr>data = 2, device = CUDA 0\<rparr>), (''w2'', \<lparr>data = 4, device = CPU\<rparr>)])
   \<and> ParamDict_add [(''w1'', \<lparr>data = 2, device = CUDA 0\<rparr>), (''w2'', \<lparr>data = 4, device = CPU\<rparr>)]
        (ParamDictV [(''w1'', \<lparr>data = 1, device = CPU\<rparr>), (''w2'', \<lparr>data = 8, device = CUDA 1\<rparr>)])
       = Inr [(''w1'', \<lparr>data = 3, device = CPU\<rparr>), (''w2'', \<lparr>data = 12, device = CPU\<rparr>)]
   \<and> ParamDict_rmul [(''w1'', \<lparr>data = 2, device = CUDA 0\<rparr>), (''w2'', \<lparr>data = 4, device = CPU\<rparr>)]
        (ParamDictV [(''w1'', \<lparr>data = 1, device = CPU\<rparr>), (''w2'', \<lparr>data = 8, device = CUDA 1\<rparr>)])
       = Inr [(''w1'', \<lparr>data = 2, device = CPU\<rparr>), (''w2'', \<lparr>data = 32, device = CPU\<rparr>)]
   \<and> ParamDict_truediv [(''w1'', \<lparr>data = 2, device = CUDA 0\<rparr>), (''w2'', \<lparr>data = 4, device = CPU\<rparr>)]
        (ParamDictV [(''w1'', \<lparr>data = 1, device = CPU\<rparr>), (''w2'', \<lparr>data = 8, device = CUDA 1\<rparr>)])
       = Inr [(''w1'', \<lparr>data = 2, device = CPU\<rparr>), (''w2'', \<lparr>data = 1 / 2, device = CPU\<rparr>)]"
proof -
  let ?A = "[(''w1'', \<lparr>data = 2, device = CUDA 0\<rparr>), (''w2'', \<lparr>data = 4, device = CPU\<rparr>)]"
  let ?B = "[(''w1'', \<lparr>data = 1, device = CPU\<rparr>), (''w2'', \<lparr>data = 8, device = CUDA 1\<rparr>)]"
  have dA: "distinct (map fst ?A)" by simp
  have keys: "set (map fst ?B) = set (map fst ?A)" by simp
  note three = neg_keeps_device [OF dA, of "Number 3" 3 ?B]
  note two = neg_keeps_device [OF dA, of "Number 2" 2 ?B]
  from three have "ParamDict_neg ?A
      = Inr [(''w1'', \<lparr>data = - 2, device = CUDA 0\<rparr>), (''w2'', \<lparr>data = - 4, device = CPU\<rparr>)]"
    by simp
  moreover from three have "ParamDict_add ?A (Number 3)
      = Inr [(''w1'', \<lparr>data = 5, device = CPU\<rparr>), (''w2'', \<lparr>data = 7, device = CPU\<rparr>)]"
    by (simp add: cpu_def tensor_number_def)
  moreover from three have "ParamDict_rmul ?A (Number 3)
      = Inr [(''w1'', \<lparr>data = 6, device = CPU\<rparr>), (''w2'', \<lparr>data = 12, device = CPU\<rparr>)]"
    by (simp add: cpu_def tensor_number_def)
  moreover from two have "ParamDict_truediv ?A (Number 2)
      = Inr [(''w1'', \<lparr>data = 1, device = CPU\<rparr>), (''w2'', \<lparr>data = 2, device = CPU\<rparr>)]"
    by (simp add: cpu_def tensor_number_def)
  moreover from three keys have "ParamDict_add ?A (ParamDictV ?B)
      = Inr [(''w1'', \<lparr>data = 3, device = CPU\<rparr>), (''w2'', \<lparr>data = 12, device = CPU\<rparr>)]"
    by (simp add: cpu_def tensor_tensor_def)
  moreover from three keys have "ParamDict_rmul ?A (ParamDictV ?B)
      = Inr [(''w1'', \<lparr>data = 2, device = CPU\<rparr>), (''w2'', \<lparr>data = 32, device = CPU\<rparr>)]"
    by (simp add: cpu_def tensor_tensor_def)
  moreover from three keys have "ParamDict_truediv ?A (ParamDictV ?B)
      = Inr [(''w1'', \<lparr>data = 2, device = CPU\<rparr>), (''w2'', \<lparr>data = 1 / 2, device = CPU\<rparr>)]"
    by (simp add: cpu_def tensor_tensor_def)
  ultimately show ?thesis using dA keys by blast
qed

subsection \<open>The constructor and keyword arguments\<close>

text \<open>
  C9. The constructor passes the keys of its keyword arguments on as positional
  arguments. With a keyword argument the construction therefore stores none of the
  pairs: it raises \<^verbatim>\<open>TypeError\<close> when there is more than one argument in all, and with
  a single keyword argument it raises \<^verbatim>\<open>ValueError\<close>, or returns the empty dictionary
  when the key is the empty string. A single positional mapping is copied.
\<close>

theorem init_forwards_keyword_keys:
  "(kwargs \<noteq> [] \<longrightarrow>
      ParamDict_init args kwargs =
        (if 1 < length args + length kwargs then Inl TypeError
         else if fst (hd kwargs) = [] then Inr [] else Inl ValueError))
   \<and> ParamDict_init args kwargs = OrderedDict_init (args @ map StrArg (map fst kwargs))
   \<and> (distinct (map fst m) \<longrightarrow> ParamDict_init [MappingArg m] [] = Inr m)"
proof -
  have fwd: "ParamDict_init args kwargs = OrderedDict_init (args @ map StrArg (map fst kwargs))"
    by (simp add: ParamDict_init_def case_prod_unfold comp_def)
  have kw: "ParamDict_init args kwargs =
        (if 1 < length args + length kwargs then Inl TypeError
         else if fst (hd kwargs) = [] then Inr [] else Inl ValueError)" if "kwargs \<noteq> []"
  proof (cases kwargs)
    case Nil
    with that show ?thesis by simp
  next
    case (Cons p ps)
    show ?thesis
    proof (cases args)
      case Nil
      with Cons fwd show ?thesis by (cases ps) simp_all
    next
      case (Cons a as)
      with \<open>kwargs = p # ps\<close> fwd show ?thesis by (cases as) simp_all
    qed
  qed
  have "ParamDict_init [MappingArg m] [] = Inr m" if "distinct (map fst m)"
    using that by (simp add: ParamDict_init_def update_pairs_distinct)
  with fwd kw show ?thesis by blast
qed

theorem init_forwards_keyword_keys_witness:
  "[(''w1'', \<lparr>data = 2, device = CPU\<rparr>)] \<noteq> []
   \<and> ParamDict_init [] [(''w1'', \<lparr>data = 2, device = CPU\<rparr>)] = Inl ValueError
   \<and> ParamDict_init [] [(''w1'', \<lparr>data = 2, device = CPU\<rparr>), (''w2'', \<lparr>data = 4, device = CPU\<rparr>)]
       = Inl TypeError
   \<and> ParamDict_init [] [('''', \<lparr>data = 2, device = CPU\<rparr>)] = Inr []
   \<and> distinct (map fst [(''w1'', \<lparr>data = 2, device = CPU\<rparr>), (''w2'', \<lparr>data = 4, device = CPU\<rparr>)])
   \<and> ParamDict_init [MappingArg [(''w1'', \<lparr>data = 2, device = CPU\<rparr>), (''w2'', \<lparr>data = 4, device = CPU\<rparr>)]] []
       = Inr [(''w1'', \<lparr>data = 2, device = CPU\<rparr>), (''w2'', \<lparr>data = 4, device = CPU\<rparr>)]"
  using init_forwards_keyword_keys [of "[(''w1'', \<lparr>data = 2, device = CPU\<rparr>)]" "[]"
      "[(''w1'', \<lparr>data = 2, device = CPU\<rparr>), (''w2'', \<lparr>data = 4, device = CPU\<rparr>)]"]
    init_forwards_keyword_keys
      [of "[(''w1'', \<lparr>data = 2, device = CPU\<rparr>), (''w2'', \<lparr>data = 4, device = CPU\<rparr>)]" "[]" "[]"]
    init_forwards_keyword_keys [of "[('''', \<lparr>data = 2, device = CPU\<rparr>)]" "[]" "[]"]
  by simp

subsection \<open>Reflected subtraction\<close>

text \<open>
  C10. \<^verbatim>\<open>__rsub__\<close>, which Python calls for \<^verbatim>\<open>x - A\<close> when \<open>x\<close> cannot subtract a
  \<^verbatim>\<open>ParamDict\<close> itself, is the function that \<^verbatim>\<open>__sub__\<close> is: the result is \<^verbatim>\<open>A + (-x)\<close>.
  For a number \<open>s\<close>, \<^verbatim>\<open>s - A\<close> and \<^verbatim>\<open>A - s\<close> both have the values \<open>A[k] - s\<close>.
\<close>

theorem rsub_is_sub:
  "ParamDict_rsub A x = ParamDict_sub A x
   \<and> ParamDict_rsub A x =
       (case operand_neg x of Inl e \<Rightarrow> Inl e | Inr n \<Rightarrow> ParamDict_add A n)
   \<and> (distinct (map fst A) \<longrightarrow>
        ParamDict_rsub A (Number s) =
          Inr (map (\<lambda>(k, v). (k, \<lparr>data = data v - s, device = CPU\<rparr>)) A)
        \<and> ParamDict_sub A (Number s) =
          Inr (map (\<lambda>(k, v). (k, \<lparr>data = data v - s, device = CPU\<rparr>)) A))"
proof -
  have "ParamDict_rsub A (Number s) =
          Inr (map (\<lambda>(k, v). (k, \<lparr>data = data v - s, device = CPU\<rparr>)) A)"
    if "distinct (map fst A)"
    using rsub_Number [OF that, of s] by simp
  then show ?thesis
    by (simp add: ParamDict_sub_def ParamDict_rsub_def)
qed

theorem rsub_is_sub_witness:
  "distinct (map fst [(''w1'', \<lparr>data = 5, device = CPU\<rparr>)])
   \<and> ParamDict_rsub [(''w1'', \<lparr>data = 5, device = CPU\<rparr>)] (Number 2)
       = Inr [(''w1'', \<lparr>data = 3, device = CPU\<rparr>)]
   \<and> ParamDict_rsub [(''w1'', \<lparr>data = 5, device = CPU\<rparr>)] (Number 2)
       \<noteq> Inr [(''w1'', \<lparr>data = 2 - 5, device = CPU\<rparr>)]"
proof -
  have d: "distinct (map fst [(''w1'', \<lparr>data = 5, device = CPU\<rparr>)])" by simp
  from rsub_is_sub [of "[(''w1'', \<lparr>data = 5, device = CPU\<rparr>)]" "Number 2" 2] d
  have "ParamDict_rsub [(''w1'', \<lparr>data = 5, device = CPU\<rparr>)] (Number 2) =
        Inr (map (\<lambda>(k, v). (k, \<lparr>data = data v - 2, device = CPU\<rparr>))
               [(''w1'', \<lparr>data = 5, device = CPU\<rparr>)])"
    by blast
  then show ?thesis by simp
qed

subsection \<open>Operands are left as they are\<close>

text \<open>
  C5. On the store, each of \<^verbatim>\<open>__add__\<close>, \<^verbatim>\<open>__rmul__\<close>, \<^verbatim>\<open>__mul__\<close>, \<^verbatim>\<open>__neg__\<close>,
  \<^verbatim>\<open>__rsub__\<close>, \<^verbatim>\<open>__sub__\<close> and \<^verbatim>\<open>__truediv__\<close> leaves every object that existed before
  the call with the items it had, the two operands among them (also when they are one
  and the same object), and what it returns is an object that did not exist before.
\<close>

theorem operands_unmodified:
  assumes "self < length h" and "live h other"
  shows "fresh_result h (heap_add h self other)
       \<and> fresh_result h (heap_rmul h self other)
       \<and> fresh_result h (heap_mul h self other)
       \<and> fresh_result h (heap_neg h self)
       \<and> fresh_result h (heap_rsub h self other)
       \<and> fresh_result h (heap_sub h self other)
       \<and> fresh_result h (heap_truediv h self other)"
  by (simp add: heap_add_def heap_rmul_def heap_mul_def heap_sub_def heap_truediv_def
      heap_prototype_fresh heap_neg_fresh heap_rsub_fresh)

theorem operands_unmodified_witness:
  "(0::nat) < length [ParamDictObj [(''w1'', \<lparr>data = 2, device = CPU\<rparr>)],
                      ParamDictObj [(''w1'', \<lparr>data = 1, device = CUDA 0\<rparr>)]]
   \<and> live [ParamDictObj [(''w1'', \<lparr>data = 2, device = CPU\<rparr>)],
            ParamDictObj [(''w1'', \<lparr>data = 1, device = CUDA 0\<rparr>)]] (ObjR 1)
   \<and> take (length [ParamDictObj [(''w1'', \<lparr>data = 2, device = CPU\<rparr>)],
                     ParamDictObj [(''w1'', \<lparr>data = 1, device = CUDA 0\<rparr>)]])
        (fst (heap_sub [ParamDictObj [(''w1'', \<lparr>data = 2, device = CPU\<rparr>)],
                        ParamDictObj [(''w1'', \<lparr>data = 1, device = CUDA 0\<rparr>)]] 0 (ObjR 1)))
       = [ParamDictObj [(''w1'', \<lparr>data = 2, device = CPU\<rparr>)],
          ParamDictObj [(''w1'', \<lparr>data = 1, device = CUDA 0\<rparr>)]]
   \<and> snd (heap_sub [ParamDictObj [(''w1'', \<lparr>data = 2, device = CPU\<rparr>)],
                     ParamDictObj [(''w1'', \<lparr>data = 1, device = CUDA 0\<rparr>)]] 0 (ObjR 1))
       = Inr 5
   \<and> fst (heap_sub [ParamDictObj [(''w1'', \<lparr>data = 2, device = CPU\<rparr>)],
                     ParamDictObj [(''w1'', \<lparr>data = 1, device = CUDA 0\<rparr>)]] 0 (ObjR 1)) ! 5
       = ParamDictObj [(''w1'', \<lparr>data = 1, device = CPU\<rparr>)]"
proof -
  let ?h = "[ParamDictObj [(''w1'', \<lparr>data = 2, device = CPU\<rparr>)],
             ParamDictObj [(''w1'', \<lparr>data = 1, device = CUDA 0\<rparr>)]]"
  have self: "(0::nat) < length ?h" and other: "live ?h (ObjR 1)" by simp_all
  from operands_unmodified [OF self other]
  have "fresh_result ?h (heap_sub ?h 0 (ObjR 1))" by blast
  then have unchanged: "take (length ?h) (fst (heap_sub ?h 0 (ObjR 1))) = ?h"
    unfolding fresh_result_def by (rule conjunct1)
  have "heap_sub ?h 0 (ObjR 1)
        = ([ParamDictObj [(''w1'', \<lparr>data = 2, device = CPU\<rparr>)],
            ParamDictObj [(''w1'', \<lparr>data = 1, device = CUDA 0\<rparr>)],
            DictObj [(''w1'', \<lparr>data = - 1, device = CUDA 0\<rparr>)],
            ParamDictObj [(''w1'', \<lparr>data = - 1, device = CUDA 0\<rparr>)],
            DictObj [(''w1'', \<lparr>data = 1, device = CPU\<rparr>)],
            ParamDictObj [(''w1'', \<lparr>data = 1, device = CPU\<rparr>)]], Inr 5)"
    by (simp add: heap_sub_def heap_rsub_def heap_neg_def heap_add_def heap_prototype_def
        heap_dict_comp_def heap_ParamDict_def new_obj_def heap_setitem_def neg_item_def
        dict_item_def tensor_neg_def tensor_tensor_def cpu_def)
  then have "snd (heap_sub ?h 0 (ObjR 1)) = Inr 5"
    and "fst (heap_sub ?h 0 (ObjR 1)) ! 5 = ParamDictObj [(''w1'', \<lparr>data = 1, device = CPU\<rparr>)]"
    by simp_all
  with self other unchanged show ?thesis by blast
qed

end
